theory Spec2Isabelle
  imports Main "HOL-Library.Word"
begin

unbundle bit_operations_syntax

section \<open>Python built-ins used by netcider.py\<close>

text \<open>
  The program works on Python strings throughout: every method of the class \<open>CIDR\<close> takes
  dotted-decimal text, splits it, converts the pieces with \<open>int\<close>, computes, and joins the
  results back with \<open>str\<close>. The built-ins it relies on are modelled first.

  A Python \<open>str\<close> is modelled as a HOL \<open>string\<close>, so the model covers strings whose code
  points are below 256. Exceptions are values of \<open>py_error\<close>; a call that may raise returns
  \<open>py_error + 'a\<close> with \<open>Inl\<close> for the exception. Python integers are unbounded: \<open>int\<close>.
  Not modelled: the interpreter's limit on the number of digits \<open>int\<close> accepts (4300 by
  default since Python 3.11) and \<open>MemoryError\<close> on huge string repetitions.
\<close>

datatype py_error = ValueError | IndexError | TypeError | AttributeError

definition digit_char :: "nat \<Rightarrow> char" where
  "digit_char d = char_of (48 + d)"

text \<open>\<open>str(n)\<close> for an integer: decimal digits, most significant first, \<open>-\<close> for negatives.\<close>

function str_nat :: "nat \<Rightarrow> string" where
  "str_nat n = (if n < 10 then [digit_char n] else str_nat (n div 10) @ [digit_char (n mod 10)])"
  by pat_completeness auto
termination
  by (relation "measure (\<lambda>n. n)") auto

declare str_nat.simps [simp del]

definition py_str :: "int \<Rightarrow> string" where
  "py_str i = (if i < 0 then CHR ''-'' # str_nat (nat (- i)) else str_nat (nat i))"

text \<open>\<open>bin(n)\<close>: the prefix \<open>0b\<close> (after the sign) and the binary digits.\<close>

function bin_nat :: "nat \<Rightarrow> string" where
  "bin_nat n = (if n < 2 then [digit_char n] else bin_nat (n div 2) @ [digit_char (n mod 2)])"
  by pat_completeness auto
termination
  by (relation "measure (\<lambda>n. n)") auto

declare bin_nat.simps [simp del]

definition py_bin :: "int \<Rightarrow> string" where
  "py_bin i = (if i < 0 then ''-0b'' @ bin_nat (nat (- i)) else ''0b'' @ bin_nat (nat i))"

text \<open>
  \<open>int(s)\<close> and \<open>int(s, 2)\<close>: surrounding whitespace is skipped, one sign is allowed, base 2
  accepts the prefix \<open>0b\<close> or \<open>0B\<close> (followed by at most one underscore), and the digits
  may be separated by single underscores. Everything else raises \<open>ValueError\<close>.
\<close>

definition is_space :: "char \<Rightarrow> bool" where
  "is_space c = (of_char c \<in> {9, 10, 11, 12, 13, 32, 133, 160 :: nat})"

definition strip :: "string \<Rightarrow> string" where
  "strip s = rev (dropWhile is_space (rev (dropWhile is_space s)))"

definition digit_val :: "char \<Rightarrow> nat option" where
  "digit_val c = (let k = of_char c :: nat in if 48 \<le> k \<and> k \<le> 57 then Some (k - 48) else None)"

fun parse_digits :: "nat \<Rightarrow> nat \<Rightarrow> string \<Rightarrow> nat option" where
  "parse_digits b acc [] = Some acc"
| "parse_digits b acc (c # cs) =
     (if c = CHR ''_''
      then (case cs of [] \<Rightarrow> None
            | d # _ \<Rightarrow> if d = CHR ''_'' then None else parse_digits b acc cs)
      else (case digit_val c of None \<Rightarrow> None
            | Some v \<Rightarrow> if v < b then parse_digits b (acc * b + v) cs else None))"

definition py_int :: "nat \<Rightarrow> string \<Rightarrow> py_error + int" where
  "py_int b s =
     (let t = strip s;
          neg = (take 1 t = ''-'');
          u = (if take 1 t = ''-'' \<or> take 1 t = ''+'' then drop 1 t else t);
          v = (if b = 2 \<and> (take 2 u = ''0b'' \<or> take 2 u = ''0B'')
               then (if take 1 (drop 2 u) = ''_'' then drop 3 u else drop 2 u)
               else u)
      in if v = [] \<or> take 1 v = ''_'' then Inl ValueError
         else (case parse_digits b 0 v of
                 None \<Rightarrow> Inl ValueError
               | Some n \<Rightarrow> Inr (if neg then - int n else int n)))"

text \<open>\<open>s.zfill(w)\<close>: pads with zeros on the left, after a leading sign.\<close>

definition zfill :: "nat \<Rightarrow> string \<Rightarrow> string" where
  "zfill w s =
     (if w \<le> length s then s
      else if take 1 s = ''+'' \<or> take 1 s = ''-''
           then take 1 s @ replicate (w - length s) (CHR ''0'') @ drop 1 s
           else replicate (w - length s) (CHR ''0'') @ s)"

text \<open>\<open>s.split(c)\<close> for a one-character separator: never empty, \<open>''.split('.') == ['']\<close>.\<close>

fun py_split :: "char \<Rightarrow> string \<Rightarrow> string list" where
  "py_split c [] = [[]]"
| "py_split c (x # xs) =
     (if x = c then [] # py_split c xs
      else (case py_split c xs of [] \<Rightarrow> [[x]] | y # ys \<Rightarrow> (x # y) # ys))"

text \<open>\<open>sep.join(xs)\<close>.\<close>

fun py_join :: "string \<Rightarrow> string list \<Rightarrow> string" where
  "py_join sep [] = []"
| "py_join sep [x] = x"
| "py_join sep (x # y # ys) = x @ sep @ py_join sep (y # ys)"

text \<open>\<open>s.index(c)\<close>: the position of the first occurrence, \<open>ValueError\<close> when there is none.\<close>

fun py_index :: "char \<Rightarrow> string \<Rightarrow> py_error + nat" where
  "py_index c [] = Inl ValueError"
| "py_index c (x # xs) =
     (if x = c then Inr 0
      else (case py_index c xs of Inl e \<Rightarrow> Inl e | Inr i \<Rightarrow> Inr (Suc i)))"

text \<open>A list comprehension whose element expression may raise: the first exception wins.\<close>

fun map_result :: "('a \<Rightarrow> py_error + 'b) \<Rightarrow> 'a list \<Rightarrow> py_error + 'b list" where
  "map_result f [] = Inr []"
| "map_result f (x # xs) =
     (case f x of Inl e \<Rightarrow> Inl e
      | Inr y \<Rightarrow> (case map_result f xs of Inl e \<Rightarrow> Inl e | Inr ys \<Rightarrow> Inr (y # ys)))"

text \<open>
  \<open>zip(*[iter(s)] * 8)\<close>: the same iterator eight times, so the i-th tuple holds the
  characters \<open>8 i .. 8 i + 7\<close>; an incomplete last group is dropped.
\<close>

definition iter_chunks :: "nat \<Rightarrow> string \<Rightarrow> string list" where
  "iter_chunks k s = map (\<lambda>i. take k (drop (i * k) s)) [0 ..< length s div k]"

text \<open>\<open>itertools.product(*ranges)\<close>: the first range varies slowest, the last fastest.\<close>

fun itertools_product :: "'a list list \<Rightarrow> 'a list list" where
  "itertools_product [] = [[]]"
| "itertools_product (r # rs) = concat (map (\<lambda>x. map (\<lambda>t. x # t) (itertools_product rs)) r)"

text \<open>\<open>reduce(operator.mul, xs)\<close> without an initial value: \<open>TypeError\<close> on the empty list.\<close>

definition reduce_mul :: "int list \<Rightarrow> py_error + int" where
  "reduce_mul xs = (case xs of [] \<Rightarrow> Inl TypeError | x # r \<Rightarrow> Inr (foldl (\<lambda>a b. a * b) x r))"

section \<open>The methods of class CIDR\<close>

text \<open>\<open>list_to_string\<close> is called on lists of integers and on lists of strings; \<open>str\<close> is
  the conversion of the element type (the identity on strings).\<close>

definition list_to_string :: "('a \<Rightarrow> string) \<Rightarrow> 'a list \<Rightarrow> string" where
  "list_to_string str ipList = py_join ''.'' (map str ipList)"

definition address_to_bin :: "string \<Rightarrow> py_error + string list" where
  "address_to_bin address =
     map_result (\<lambda>val. case py_int 10 val of Inl e \<Rightarrow> Inl e
                        | Inr n \<Rightarrow> Inr (zfill 8 (drop 2 (py_bin n))))
       (py_split (CHR ''.'') address)"

definition bin_to_address :: "string list \<Rightarrow> py_error + int list" where
  "bin_to_address binAddress = map_result (py_int 2) binAddress"

text \<open>The element expression of the list comprehension in \<open>network\<close>:
  \<open>bin(int(a, 2) & int(b, 2))[2:].zfill(8)\<close> for a pair \<open>(a, b)\<close>.\<close>

definition and_bits :: "string \<times> string \<Rightarrow> py_error + string" where
  "and_bits ab =
     (case py_int 2 (fst ab) of Inl e \<Rightarrow> Inl e
      | Inr x \<Rightarrow> (case py_int 2 (snd ab) of Inl e \<Rightarrow> Inl e
                 | Inr y \<Rightarrow> Inr (zfill 8 (drop 2 (py_bin (x AND y))))))"

definition network :: "string \<Rightarrow> string \<Rightarrow> py_error + int list" where
  "network address netmask =
     (case address_to_bin address of Inl e \<Rightarrow> Inl e
      | Inr as \<Rightarrow>
         (case address_to_bin netmask of Inl e \<Rightarrow> Inl e
          | Inr bs \<Rightarrow>
             (case map_result and_bits (zip as bs) of Inl e \<Rightarrow> Inl e
              | Inr binNetwork \<Rightarrow> bin_to_address binNetwork)))"

text \<open>\<open>'1' * k\<close> is the empty string for \<open>k \<le> 0\<close>, as \<open>replicate (nat k)\<close> is.\<close>

definition calculate_netmask :: "string \<Rightarrow> py_error + string" where
  "calculate_netmask mask' =
     (case py_int 10 mask' of Inl e \<Rightarrow> Inl e
      | Inr k \<Rightarrow>
         (let binMask = replicate (nat k) (CHR ''1'') @ replicate (nat (32 - k)) (CHR ''0'');
              maskList = iter_chunks 8 binMask
          in (case bin_to_address maskList of Inl e \<Rightarrow> Inl e
              | Inr netmask \<Rightarrow> Inr (list_to_string py_str netmask))))"

definition calculate_wildcard :: "string \<Rightarrow> py_error + string" where
  "calculate_wildcard mask' =
     (case py_int 10 mask' of Inl e \<Rightarrow> Inl e
      | Inr k \<Rightarrow>
         (let binMask = replicate (nat k) (CHR ''1'') @ replicate (nat (32 - k)) (CHR ''0'');
              maskList = iter_chunks 8 binMask
          in (case bin_to_address maskList of Inl e \<Rightarrow> Inl e
              | Inr netmask \<Rightarrow>
                 Inr (list_to_string py_str (map (\<lambda>val. 255 - val) netmask)))))"

text \<open>\<open>temp[3]\<close> raises \<open>IndexError\<close> when the address has fewer than four parts.\<close>

definition host_min :: "string \<Rightarrow> py_error + string" where
  "host_min address =
     (let temp = py_split (CHR ''.'') address
      in if length temp < 4 then Inl IndexError
         else (case py_int 10 (temp ! 3) of Inl e \<Rightarrow> Inl e
               | Inr n \<Rightarrow> Inr (list_to_string (\<lambda>s. s) (temp[3 := py_str n]))))"

text \<open>\<open>sum\<close> of a pair is the addition of its components: the octets are added one by
  one, and nothing carries from one octet to the next.\<close>

definition host_max :: "string \<Rightarrow> string \<Rightarrow> py_error + string" where
  "host_max address wildcard =
     (let tmpAddr = py_split (CHR ''.'') address;
          tmpWild = py_split (CHR ''.'') wildcard
      in if length tmpWild < 4 then Inl IndexError
         else (case py_int 10 (tmpWild ! 3) of Inl e \<Rightarrow> Inl e
               | Inr n \<Rightarrow>
                  (case map_result (py_int 10) tmpAddr of Inl e \<Rightarrow> Inl e
                   | Inr xs \<Rightarrow>
                      (case map_result (py_int 10) (tmpWild[3 := py_str n]) of Inl e \<Rightarrow> Inl e
                       | Inr ys \<Rightarrow>
                          Inr (list_to_string py_str (map (\<lambda>(a, b). a + b) (zip xs ys)))))))"

text \<open>\<open>len(range(0, e + 1))\<close> is \<open>e + 1\<close>, and 0 when \<open>e + 1\<close> is negative.\<close>

definition num_hosts :: "string \<Rightarrow> py_error + int" where
  "num_hosts wildcard =
     (case map_result (py_int 10) (py_split (CHR ''.'') wildcard) of Inl e \<Rightarrow> Inl e
      | Inr tmpWild \<Rightarrow>
         (case reduce_mul (map (\<lambda>e. max 0 (e + 1)) tmpWild) of Inl e \<Rightarrow> Inl e
          | Inr numhosts \<Rightarrow> Inr (if numhosts > 0 then numhosts else 1)))"

text \<open>\<open>range(i, j + 1)\<close> is the list \<open>[i .. j]\<close>, empty when \<open>j < i\<close>. The loop appends
  every tuple of the product, formatted, to the list \<open>complete\<close>, and returns that list.\<close>

definition get_ip_list :: "string \<Rightarrow> string \<Rightarrow> py_error + string list" where
  "get_ip_list hostmin hostmax =
     (case map_result (py_int 10) (py_split (CHR ''.'') hostmin) of Inl e \<Rightarrow> Inl e
      | Inr los \<Rightarrow>
         (case map_result (py_int 10) (py_split (CHR ''.'') hostmax) of Inl e \<Rightarrow> Inl e
          | Inr his \<Rightarrow>
             (let ranges = map (\<lambda>(i, j). [i .. j]) (zip los his)
              in Inr (foldl (\<lambda>complete ip. complete @ [py_join ''.'' (map py_str ip)]) []
                        (itertools_product ranges)))))"

section \<open>The object and its constructor\<close>

text \<open>
  An instance of \<open>CIDR\<close> has ten attributes, each assigned by the constructor in turn.
  An attribute that was not assigned does not exist on the object: it is \<open>None\<close> here,
  and reading it is an \<open>AttributeError\<close>. The field \<open>total_hosts\<close> is the attribute
  \<open>total\<close> of the source.
\<close>

record CIDR =
  base :: "string option"
  netmask :: "string option"
  wildcard :: "string option"
  binBase :: "string list option"
  subnet :: "string option"
  hostmin :: "string option"
  hostmax :: "string option"
  total_hosts :: "int option"
  broadcast :: "string option"
  allips :: "string list option"

definition new_object :: CIDR where
  "new_object = \<lparr>base = None, netmask = None, wildcard = None, binBase = None,
     subnet = None, hostmin = None, hostmax = None, total_hosts = None,
     broadcast = None, allips = None\<rparr>"

text \<open>
  \<open>CIDR.__init__\<close>: the whole body is inside \<open>try\<close>, and the handler prints the
  exception and returns normally. The result is the object as the failing statement left
  it, together with what was printed (\<open>None\<close> when no statement raised). The method
  \<open>update\<close> has the same body and is not modelled separately.
\<close>

definition init :: "string \<Rightarrow> CIDR \<times> py_error option" where
  "init address =
     (let self = new_object in
      case py_index (CHR ''/'') address of Inl e \<Rightarrow> (self, Some e)
      | Inr index \<Rightarrow>
     (let self = self\<lparr>base := Some (take index address)\<rparr>;
          intMask = drop (index + 1) address in
      case calculate_netmask intMask of Inl e \<Rightarrow> (self, Some e)
      | Inr nm \<Rightarrow>
     (let self = self\<lparr>netmask := Some nm\<rparr> in
      case calculate_wildcard intMask of Inl e \<Rightarrow> (self, Some e)
      | Inr wc \<Rightarrow>
     (let self = self\<lparr>wildcard := Some wc\<rparr> in
      case address_to_bin (take index address) of Inl e \<Rightarrow> (self, Some e)
      | Inr bb \<Rightarrow>
     (let self = self\<lparr>binBase := Some bb\<rparr> in
      case network (take index address) nm of Inl e \<Rightarrow> (self, Some e)
      | Inr net \<Rightarrow>
     (let sn = list_to_string py_str net;
          self = self\<lparr>subnet := Some sn\<rparr> in
      case host_min sn of Inl e \<Rightarrow> (self, Some e)
      | Inr lo \<Rightarrow>
     (let self = self\<lparr>hostmin := Some lo\<rparr> in
      case host_max sn wc of Inl e \<Rightarrow> (self, Some e)
      | Inr hi \<Rightarrow>
     (let self = self\<lparr>hostmax := Some hi\<rparr> in
      case num_hosts wc of Inl e \<Rightarrow> (self, Some e)
      | Inr n \<Rightarrow>
     (let self = self\<lparr>total_hosts := Some n\<rparr> in
      case host_min hi of Inl e \<Rightarrow> (self, Some e)
      | Inr bc \<Rightarrow>
     (let self = self\<lparr>broadcast := Some bc\<rparr> in
      case get_ip_list lo hi of Inl e \<Rightarrow> (self, Some e)
      | Inr ips \<Rightarrow> (self\<lparr>allips := Some ips\<rparr>, None)))))))))))"

text \<open>
  \<open>CIDR.__str__\<close> reads eight attributes, in this order, and hands them to a table
  renderer: one of two external libraries, by the number of command-line arguments, with
  the same rows in both branches. The renderers are not modelled; the rows are what the
  model keeps, with the labels free of colour codes. Reading an attribute that was never
  assigned raises \<open>AttributeError\<close>, which nothing catches.
\<close>

definition attribute :: "'a option \<Rightarrow> py_error + 'a" where
  "attribute a = (case a of None \<Rightarrow> Inl AttributeError | Some v \<Rightarrow> Inr v)"

definition str_rows :: "CIDR \<Rightarrow> py_error + (string \<times> string) list" where
  "str_rows self =
     (case map_result attribute
             [base self, netmask self, wildcard self, broadcast self, subnet self,
              hostmin self, hostmax self, map_option py_str (total_hosts self)] of
        Inl e \<Rightarrow> Inl e
      | Inr vs \<Rightarrow>
          Inr (zip [''Base'', ''Netmask'', ''Wildcard'', ''Broadcast'', ''Subnet ID'',
                    ''Host min'', ''Host max'', ''Total Hosts''] vs))"

text \<open>
  The main program on piped input: the text is split at newlines and one object is
  constructed per line, in order, before anything is printed.
\<close>

definition main_stdin :: "string \<Rightarrow> (CIDR \<times> py_error option) list" where
  "main_stdin stdin_text = map init (py_split (CHR 0x0A) stdin_text)"

section \<open>Vocabulary of the specification\<close>

text \<open>
  The specification speaks of an address as a 32-bit value with four octets, most
  significant first, and of its dotted-decimal text. These definitions give the words a
  meaning; the program itself never builds a 32-bit value.
\<close>

definition octet :: "nat \<Rightarrow> 32 word \<Rightarrow> int" where
  "octet k w = uint (take_bit 8 (drop_bit k w))"

definition octets :: "32 word \<Rightarrow> int list" where
  "octets w = [octet 24 w, octet 16 w, octet 8 w, octet 0 w]"

definition dotted :: "32 word \<Rightarrow> string" where
  "dotted w = list_to_string py_str (octets w)"

text \<open>The 32-bit word whose top \<open>n\<close> bits are set and whose other bits are clear.\<close>

definition prefix_mask :: "nat \<Rightarrow> 32 word" where
  "prefix_mask n = NOT (mask (32 - n))"

text \<open>A well-formed input: the canonical text of an address, a slash, a prefix length.\<close>

definition cidr_text :: "32 word \<Rightarrow> nat \<Rightarrow> string" where
  "cidr_text w n = dotted w @ ''/'' @ py_str (int n)"

text \<open>The 32-bit word with four given octets, most significant first.\<close>

definition word_of_octets :: "int \<Rightarrow> int \<Rightarrow> int \<Rightarrow> int \<Rightarrow> 32 word" where
  "word_of_octets a b c d = word_of_int (((a * 256 + b) * 256 + c) * 256 + d)"

text \<open>The host count of the specification: the product over the four octets of the
  wildcard of the octet plus one.\<close>

definition host_count :: "32 word \<Rightarrow> int" where
  "host_count wc = prod_list (map (\<lambda>v. v + 1) (octets wc))"

text \<open>The enumeration between two lists of octets, as \<open>get_ip_list\<close> computes it from
  their text.\<close>

definition ip_list :: "int list \<Rightarrow> int list \<Rightarrow> string list" where
  "ip_list los his = map (list_to_string py_str)
     (itertools_product (map (\<lambda>(i, j). [i .. j]) (zip los his)))"

text \<open>The value of a list of octets read as a number in base 256, most significant
  first, and the value of the address a dotted-decimal text denotes (\<open>- 1\<close> when the
  text does not parse).\<close>

primrec tuple_value :: "int list \<Rightarrow> int" where
  "tuple_value [] = 0"
| "tuple_value (x # t) = x * 256 ^ length t + tuple_value t"

definition address_value :: "string \<Rightarrow> int" where
  "address_value s =
     (case map_result (py_int 10) (py_split (CHR ''.'') s) of
        Inl e \<Rightarrow> - 1
      | Inr t \<Rightarrow> tuple_value t)"

text \<open>Which of the ten attributes an object has, in the order in which the constructor
  assigns them; and the lists of booleans in which no \<open>True\<close> follows a \<open>False\<close>.\<close>

definition assigned :: "CIDR \<Rightarrow> bool list" where
  "assigned self = [base self \<noteq> None, netmask self \<noteq> None, wildcard self \<noteq> None,
     binBase self \<noteq> None, subnet self \<noteq> None, hostmin self \<noteq> None, hostmax self \<noteq> None,
     total_hosts self \<noteq> None, broadcast self \<noteq> None, allips self \<noteq> None]"

fun initial_segment :: "bool list \<Rightarrow> bool" where
  "initial_segment [] = True"
| "initial_segment (b # bs) = (if b then initial_segment bs else True \<notin> set bs)"

text \<open>A character that is a digit of base \<open>b\<close> (for \<open>b \<le> 10\<close>).\<close>

definition is_digit :: "nat \<Rightarrow> char \<Rightarrow> bool" where
  "is_digit b c = (\<exists>v<b. digit_val c = Some v)"

section \<open>Numbers and their text\<close>



lemma digit_val_digit_char: "d < 10 \<Longrightarrow> digit_val (digit_char d) = Some d"
  by (simp add: digit_val_def digit_char_def)

lemma is_digit_digit_char: "d < b \<Longrightarrow> b \<le> 10 \<Longrightarrow> is_digit b (digit_char d)"
  by (simp add: is_digit_def digit_val_digit_char)

lemma is_digit_not_space: "is_digit b c \<Longrightarrow> \<not> is_space c"
  by (auto simp: is_digit_def digit_val_def is_space_def Let_def split: if_splits)

lemma digit_val_neq:
  assumes "digit_val c = Some v"
  shows "c \<noteq> CHR ''_''" "c \<noteq> CHR ''-''" "c \<noteq> CHR ''+''" "c \<noteq> CHR ''.''" "c \<noteq> CHR ''/''"
    "c \<noteq> CHR ''b''" "c \<noteq> CHR ''B''"
  using assms by (auto simp: digit_val_def Let_def split: if_splits)

lemma is_digit_neq:
  assumes "is_digit b c"
  shows "c \<noteq> CHR ''_''" "c \<noteq> CHR ''-''" "c \<noteq> CHR ''+''" "c \<noteq> CHR ''.''" "c \<noteq> CHR ''/''"
    "c \<noteq> CHR ''b''" "c \<noteq> CHR ''B''"
  using assms digit_val_neq unfolding is_digit_def by blast+

lemma str_nat_digits: "c \<in> set (str_nat n) \<Longrightarrow> is_digit 10 c"
proof (induction n rule: str_nat.induct)
  case (1 n)
  show ?case
  proof (cases "n < 10")
    case True
    with "1.prems" show ?thesis
      by (subst (asm) str_nat.simps) (simp add: is_digit_digit_char)
  next
    case False
    with "1.prems" have "c \<in> set (str_nat (n div 10)) \<or> c = digit_char (n mod 10)"
      by (subst (asm) str_nat.simps) auto
    with False "1.IH" show ?thesis
      by (auto simp: is_digit_digit_char)
  qed
qed

lemma str_nat_nonempty: "str_nat n \<noteq> []"
  by (subst str_nat.simps) simp

lemma bin_nat_digits: "c \<in> set (bin_nat n) \<Longrightarrow> is_digit 2 c"
proof (induction n rule: bin_nat.induct)
  case (1 n)
  show ?case
  proof (cases "n < 2")
    case True
    with "1.prems" show ?thesis
      by (subst (asm) bin_nat.simps) (simp add: is_digit_digit_char)
  next
    case False
    with "1.prems" have "c \<in> set (bin_nat (n div 2)) \<or> c = digit_char (n mod 2)"
      by (subst (asm) bin_nat.simps) auto
    with False "1.IH" show ?thesis
      by (auto simp: is_digit_digit_char)
  qed
qed

lemma bin_nat_nonempty: "bin_nat n \<noteq> []"
  by (subst bin_nat.simps) simp

lemma parse_digits_append:
  "\<forall>c\<in>set s. is_digit b c \<Longrightarrow>
   parse_digits b acc (s @ t) = (case parse_digits b acc s of None \<Rightarrow> None | Some a \<Rightarrow> parse_digits b a t)"
proof (induction s arbitrary: acc)
  case Nil
  show ?case by simp
next
  case (Cons c s)
  from Cons.prems obtain v where v: "v < b" "digit_val c = Some v"
    by (auto simp: is_digit_def)
  from v(2) have ne: "c \<noteq> CHR ''_''"
    by (rule digit_val_neq)
  from Cons.prems have "\<forall>c\<in>set s. is_digit b c" by simp
  from Cons.IH [OF this] v ne show ?case by simp
qed

lemma parse_digits_total:
  "\<forall>c\<in>set s. is_digit b c \<Longrightarrow> \<exists>a. parse_digits b acc s = Some a"
proof (induction s arbitrary: acc)
  case Nil
  show ?case by simp
next
  case (Cons c s)
  from Cons.prems obtain v where v: "v < b" "digit_val c = Some v"
    by (auto simp: is_digit_def)
  from v(2) have ne: "c \<noteq> CHR ''_''"
    by (rule digit_val_neq)
  from Cons.prems have "\<forall>c\<in>set s. is_digit b c" by simp
  from Cons.IH [OF this] v ne show ?case by simp
qed

lemma parse_str_nat: "parse_digits 10 0 (str_nat n) = Some n"
proof (induction n rule: str_nat.induct)
  case (1 n)
  show ?case
  proof (cases "n < 10")
    case True
    then show ?thesis
      by (subst str_nat.simps) (simp add: digit_val_digit_char digit_val_neq [OF digit_val_digit_char])
  next
    case False
    have dg: "\<forall>c\<in>set (str_nat (n div 10)). is_digit 10 c"
      using str_nat_digits by blast
    have "parse_digits 10 0 (str_nat n) =
          parse_digits 10 0 (str_nat (n div 10) @ [digit_char (n mod 10)])"
      using False by (subst str_nat.simps) simp
    also have "\<dots> = parse_digits 10 (n div 10) [digit_char (n mod 10)]"
      using "1.IH" [OF False] by (simp only: parse_digits_append [OF dg] option.case)
    also have "\<dots> = Some n"
      by (simp add: digit_val_digit_char digit_val_neq [OF digit_val_digit_char])
    finally show ?thesis .
  qed
qed

lemma parse_bin_nat: "parse_digits 2 0 (bin_nat n) = Some n"
proof (induction n rule: bin_nat.induct)
  case (1 n)
  show ?case
  proof (cases "n < 2")
    case True
    then show ?thesis
      by (subst bin_nat.simps) (simp add: digit_val_digit_char digit_val_neq [OF digit_val_digit_char])
  next
    case False
    have dg: "\<forall>c\<in>set (bin_nat (n div 2)). is_digit 2 c"
      using bin_nat_digits by blast
    have "parse_digits 2 0 (bin_nat n) =
          parse_digits 2 0 (bin_nat (n div 2) @ [digit_char (n mod 2)])"
      using False by (subst bin_nat.simps) simp
    also have "\<dots> = parse_digits 2 (n div 2) [digit_char (n mod 2)]"
      using "1.IH" [OF False] by (simp only: parse_digits_append [OF dg] option.case)
    also have "\<dots> = Some n"
      by (simp add: digit_val_digit_char digit_val_neq [OF digit_val_digit_char])
    finally show ?thesis .
  qed
qed

lemma strip_digits: "\<forall>c\<in>set s. is_digit b c \<Longrightarrow> strip s = s"
proof (cases s)
  case Nil
  then show ?thesis by (simp add: strip_def)
next
  case (Cons c r)
  assume a: "\<forall>c\<in>set s. is_digit b c"
  with Cons have "\<not> is_space c" using is_digit_not_space [of b c] by simp
  with Cons have 1: "dropWhile is_space s = s" by simp
  from Cons have "s \<noteq> []" by simp
  then have "last s \<in> set s" by simp
  with a have "\<not> is_space (last s)" using is_digit_not_space [of b "last s"] by simp
  with \<open>s \<noteq> []\<close> have "dropWhile is_space (rev s) = rev s"
    by (cases "rev s") (auto simp: last_rev hd_rev dest: arg_cong [where f = hd])
  with 1 show ?thesis by (simp add: strip_def)
qed

lemma py_int_digits:
  assumes dg: "\<forall>c\<in>set s. is_digit b c" and ne: "s \<noteq> []"
  shows "py_int b s = (case parse_digits b 0 s of None \<Rightarrow> Inl ValueError | Some n \<Rightarrow> Inr (int n))"
proof -
  from ne obtain c r where s: "s = c # r" by (cases s) auto
  with dg have c: "is_digit b c" by simp
  have t1: "take 1 s \<noteq> ''-''" "take 1 s \<noteq> ''+''" "take 1 s \<noteq> ''_''"
    using s is_digit_neq [OF c] by simp_all
  have t2: "take 2 s \<noteq> ''0b''" "take 2 s \<noteq> ''0B''"
  proof -
    { fix x assume "take 2 s = [CHR ''0'', x]"
      then have "x \<in> set (take 2 s)" by simp
      then have "x \<in> set s" by (rule in_set_takeD)
      with dg have "is_digit b x" by simp }
    then show "take 2 s \<noteq> ''0b''" "take 2 s \<noteq> ''0B''"
      using is_digit_neq by blast+
  qed
  show ?thesis
    using t1 t2 ne by (simp add: py_int_def strip_digits [OF dg] Let_def split: option.splits)
qed

lemma py_int_str_nat: "py_int 10 (str_nat n) = Inr (int n)"
proof -
  have "\<forall>c\<in>set (str_nat n). is_digit 10 c"
    using str_nat_digits by blast
  from py_int_digits [OF this str_nat_nonempty] show ?thesis
    by (simp add: parse_str_nat)
qed

lemma py_int_py_str: "0 \<le> n \<Longrightarrow> py_int 10 (py_str n) = Inr n"
  by (simp add: py_str_def py_int_str_nat)


lemma parse_zeros: "parse_digits 2 0 (replicate k (CHR ''0'')) = Some 0"
  by (induction k) (simp_all add: digit_val_def)

lemma py_int_bin_nat: "py_int 2 (zfill 8 (drop 2 (py_bin (int n)))) = Inr (int n)"
proof -
  let ?z = "replicate (8 - length (bin_nat n)) (CHR ''0'')"
  have z: "\<forall>c\<in>set ?z. is_digit 2 c"
    by (simp add: is_digit_def digit_val_def)
  have b: "\<forall>c\<in>set (bin_nat n). is_digit 2 c"
    using bin_nat_digits by blast
  obtain c r where cr: "bin_nat n = c # r"
    using bin_nat_nonempty [of n] by (cases "bin_nat n") auto
  with b have "is_digit 2 c" by simp
  then have sg: "take 1 (bin_nat n) \<noteq> ''+''" "take 1 (bin_nat n) \<noteq> ''-''"
    using cr is_digit_neq [of 2 c] by simp_all
  have zf: "zfill 8 (drop 2 (py_bin (int n))) = ?z @ bin_nat n"
    using sg by (simp add: py_bin_def zfill_def)
  have all: "\<forall>c\<in>set (?z @ bin_nat n). is_digit 2 c"
    using z b by auto
  have ne: "?z @ bin_nat n \<noteq> []"
    by (simp add: bin_nat_nonempty)
  have pz: "parse_digits 2 0 ?z = Some 0"
    by (rule parse_zeros)
  show ?thesis
    unfolding zf py_int_digits [OF all ne] parse_digits_append [OF z] pz
    by (simp add: parse_bin_nat)
qed

lemma py_split_no_sep: "c \<notin> set s \<Longrightarrow> py_split c s = [s]"
  by (induction s) auto

lemma py_split_app: "c \<notin> set s \<Longrightarrow> py_split c (s @ c # t) = s # py_split c t"
  by (induction s) auto

lemma py_split_join:
  "xs \<noteq> [] \<Longrightarrow> \<forall>x\<in>set xs. c \<notin> set x \<Longrightarrow> py_split c (py_join [c] xs) = xs"
proof (induction "[c]" xs rule: py_join.induct)
  case 1
  then show ?case by simp
next
  case (2 x)
  then show ?case by (simp add: py_split_no_sep)
next
  case (3 x y ys)
  then show ?case by (simp add: py_split_app)
qed

lemma py_index_app: "c \<notin> set s \<Longrightarrow> py_index c (s @ c # t) = Inr (length s)"
  by (induction s) auto

lemma py_str_digits: "0 \<le> n \<Longrightarrow> c \<in> set (py_str n) \<Longrightarrow> is_digit 10 c"
  by (simp add: py_str_def str_nat_digits)

lemma py_str_no_sep: "0 \<le> n \<Longrightarrow> CHR ''.'' \<notin> set (py_str n)" "0 \<le> n \<Longrightarrow> CHR ''/'' \<notin> set (py_str n)"
  using py_str_digits is_digit_neq by blast+

lemma map_result_all:
  "\<forall>x\<in>set xs. f x = Inr (g x) \<Longrightarrow> map_result f xs = Inr (map g xs)"
  by (induction xs) auto


section \<open>Octets of 32-bit words, and the methods on canonical text\<close>


lemma octet_range: "0 \<le> octet k w" "octet k w \<le> 255"
proof -
  show "0 \<le> octet k w" by (simp add: octet_def)
  have "uint (take_bit 8 (drop_bit k w)) < 2 ^ 8"
    using take_bit_int_less_exp [of 8 "uint (drop_bit k w)"] by (simp add: unsigned_take_bit_eq)
  then show "octet k w \<le> 255" by (simp add: octet_def)
qed

lemma octet_and: "octet k (x AND y) = octet k x AND octet k y"
  by (simp add: octet_def uint_and)

lemma octet_or: "octet k (x OR y) = octet k x OR octet k y"
  by (simp add: octet_def uint_or)

lemma octet_not: "k + 8 \<le> 32 \<Longrightarrow> octet k (NOT x) = 255 - octet k x"
proof -
  assume k: "k + 8 \<le> 32"
  have "take_bit 8 (drop_bit k (NOT x)) = take_bit 8 (NOT (take_bit 8 (drop_bit k x)))"
    using k by (auto simp: bit_eq_iff bit_simps)
  then have "octet k (NOT x) = uint (take_bit 8 (NOT (take_bit 8 (drop_bit k x))))"
    by (simp add: octet_def)
  also have "\<dots> = uint (mask 8 - take_bit 8 (drop_bit k x))"
    by (simp add: take_bit_not_eq_mask_diff)
  also have "\<dots> = 255 - octet k x"
    using octet_range [of k x]
    by (simp add: octet_def uint_sub_if' mask_eq_exp_minus_1) 
  finally show ?thesis .
qed

lemma and_add_compl:
  fixes a m :: int
  assumes "0 \<le> m" "m \<le> 255"
  shows "(a AND m) + (255 - m) = (a AND m) OR (255 - m)"
proof -
  have "255 - m = take_bit 8 (NOT m)"
    using assms by (simp add: take_bit_not_eq_mask_diff mask_eq_exp_minus_1 take_bit_int_eq_self)
  then have "(a AND m) AND (255 - m) = 0"
    by (auto simp: bit_eq_iff bit_simps)
  then show ?thesis by (rule disjunctive_add_eq_or)
qed



lemma chunks_enum:
  "\<forall>n \<in> set [0 ..< 33].
     bin_to_address (iter_chunks 8 (replicate n (CHR ''1'') @ replicate (32 - n) (CHR ''0'')))
       = Inr (octets (prefix_mask n))"
  by code_simp

lemma py_join_set: "c \<in> set (py_join sep xs) \<Longrightarrow> c \<in> set sep \<or> (\<exists>x\<in>set xs. c \<in> set x)"
  by (induction sep xs rule: py_join.induct) auto

lemma split_l2s:
  assumes "xs \<noteq> []" "\<forall>x\<in>set xs. 0 \<le> x"
  shows "py_split (CHR ''.'') (list_to_string py_str xs) = map py_str xs"
proof -
  have "\<forall>s\<in>set (map py_str xs). CHR ''.'' \<notin> set s"
    using assms(2) py_str_no_sep(1) by auto
  moreover have "map py_str xs \<noteq> []"
    using assms(1) by simp
  ultimately show ?thesis
    unfolding list_to_string_def by (rule py_split_join [rotated])
qed

lemma split_quad:
  assumes "0 \<le> a" "0 \<le> b" "0 \<le> c" "0 \<le> d"
  shows "py_split (CHR ''.'') (list_to_string py_str [a, b, c, d]) = [py_str a, py_str b, py_str c, py_str d]"
  using assms split_l2s [of "[a, b, c, d]"] by simp

lemma py_int_bin8: "0 \<le> x \<Longrightarrow> py_int 2 (zfill 8 (drop 2 (py_bin x))) = Inr x"
  using py_int_bin_nat [of "nat x"] by simp

lemma address_to_bin_quad:
  assumes "0 \<le> a" "0 \<le> b" "0 \<le> c" "0 \<le> d"
  shows "address_to_bin (list_to_string py_str [a, b, c, d]) =
    Inr (map (\<lambda>x. zfill 8 (drop 2 (py_bin x))) [a, b, c, d])"
  using assms by (simp add: address_to_bin_def split_quad py_int_py_str)

lemma network_quad:
  assumes "0 \<le> a" "0 \<le> b" "0 \<le> c" "0 \<le> d"
    and "0 \<le> m0" "0 \<le> m1" "0 \<le> m2" "0 \<le> m3"
  shows "network (list_to_string py_str [a, b, c, d]) (list_to_string py_str [m0, m1, m2, m3]) =
    Inr [a AND m0, b AND m1, c AND m2, d AND m3]"
  using assms
  by (simp add: network_def address_to_bin_quad and_bits_def py_int_bin8 bin_to_address_def)

lemma host_min_quad:
  assumes "0 \<le> a" "0 \<le> b" "0 \<le> c" "0 \<le> d"
  shows "host_min (list_to_string py_str [a, b, c, d]) = Inr (list_to_string py_str [a, b, c, d])"
  using assms by (simp add: host_min_def split_quad py_int_py_str) (simp add: list_to_string_def)

lemma host_max_quad:
  assumes "0 \<le> a" "0 \<le> b" "0 \<le> c" "0 \<le> d"
    and "0 \<le> w0" "0 \<le> w1" "0 \<le> w2" "0 \<le> w3"
  shows "host_max (list_to_string py_str [a, b, c, d]) (list_to_string py_str [w0, w1, w2, w3]) =
    Inr (list_to_string py_str [a + w0, b + w1, c + w2, d + w3])"
  using assms by (simp add: host_max_def split_quad py_int_py_str)

lemma num_hosts_quad:
  assumes "0 \<le> w0" "0 \<le> w1" "0 \<le> w2" "0 \<le> w3"
  shows "num_hosts (list_to_string py_str [w0, w1, w2, w3]) =
    Inr ((w0 + 1) * (w1 + 1) * (w2 + 1) * (w3 + 1))"
proof -
  have "0 < (w0 + 1) * (w1 + 1) * (w2 + 1) * (w3 + 1)"
    using assms by simp
  then show ?thesis
    using assms by (simp add: num_hosts_def split_quad py_int_py_str reduce_mul_def max_def)
qed

lemma foldl_append_map: "foldl (\<lambda>acc x. acc @ [f x]) acc xs = acc @ map f xs"
  by (induction xs arbitrary: acc) simp_all

lemma get_ip_list_quad:
  assumes "0 \<le> a" "0 \<le> b" "0 \<le> c" "0 \<le> d"
    and "0 \<le> a'" "0 \<le> b'" "0 \<le> c'" "0 \<le> d'"
  shows "get_ip_list (list_to_string py_str [a, b, c, d]) (list_to_string py_str [a', b', c', d']) =
    Inr (map (list_to_string py_str) (itertools_product [[a .. a'], [b .. b'], [c .. c'], [d .. d']]))"
  using assms
  by (simp add: get_ip_list_def split_quad py_int_py_str foldl_append_map)
     (simp add: list_to_string_def)


section \<open>The constructor on well-formed input\<close>

lemma calculate_netmask_prefix:
  assumes "n \<le> 32"
  shows "calculate_netmask (py_str (int n)) = Inr (dotted (prefix_mask n))"
proof -
  from assms have "n \<in> set [0 ..< 33]" by simp
  with chunks_enum have
    "bin_to_address (iter_chunks 8 (replicate n (CHR ''1'') @ replicate (32 - n) (CHR ''0'')))
       = Inr (octets (prefix_mask n))" by blast
  moreover have "nat (32 - int n) = 32 - n" by simp
  ultimately show ?thesis
    by (simp add: calculate_netmask_def py_int_py_str dotted_def)
qed

lemma octets_not: "map (\<lambda>val. 255 - val) (octets w) = octets (NOT w)"
  by (simp add: octets_def octet_not)

lemma calculate_wildcard_prefix:
  assumes "n \<le> 32"
  shows "calculate_wildcard (py_str (int n)) = Inr (dotted (NOT (prefix_mask n)))"
proof -
  from assms have "n \<in> set [0 ..< 33]" by simp
  with chunks_enum have
    "bin_to_address (iter_chunks 8 (replicate n (CHR ''1'') @ replicate (32 - n) (CHR ''0'')))
       = Inr (octets (prefix_mask n))" by blast
  moreover have "nat (32 - int n) = 32 - n" by simp
  ultimately show ?thesis
    by (simp add: calculate_wildcard_def py_int_py_str dotted_def octets_not)
qed

lemma l2s_no_slash:
  assumes "\<forall>x\<in>set xs. 0 \<le> x"
  shows "CHR ''/'' \<notin> set (list_to_string py_str xs)"
proof
  assume "CHR ''/'' \<in> set (list_to_string py_str xs)"
  then have "CHR ''/'' \<in> set (py_join ''.'' (map py_str xs))"
    by (simp add: list_to_string_def)
  from py_join_set [OF this]
  have "\<exists>x\<in>set (map py_str xs). CHR ''/'' \<in> set x"
    by simp
  then show False
    using py_str_no_sep(2) assms by auto
qed

lemma init_quad:
  assumes n: "n \<le> 32" and a: "0 \<le> a" "0 \<le> b" "0 \<le> c" "0 \<le> d"
  shows "init (list_to_string py_str [a, b, c, d] @ ''/'' @ py_str (int n)) =
    (let M = prefix_mask n; W = NOT M;
         net = [a AND octet 24 M, b AND octet 16 M, c AND octet 8 M, d AND octet 0 M];
         hi = [(a AND octet 24 M) + octet 24 W, (b AND octet 16 M) + octet 16 W,
               (c AND octet 8 M) + octet 8 W, (d AND octet 0 M) + octet 0 W]
     in (\<lparr>base = Some (list_to_string py_str [a, b, c, d]),
          netmask = Some (dotted M),
          wildcard = Some (dotted W),
          binBase = Some (map (\<lambda>x. zfill 8 (drop 2 (py_bin x))) [a, b, c, d]),
          subnet = Some (list_to_string py_str net),
          hostmin = Some (list_to_string py_str net),
          hostmax = Some (list_to_string py_str hi),
          total_hosts = Some (host_count W),
          broadcast = Some (list_to_string py_str hi),
          allips = Some (ip_list net hi)\<rparr>, None))"
proof -
  let ?s = "list_to_string py_str [a, b, c, d]"
  let ?M = "prefix_mask n"
  let ?W = "NOT ?M"
  let ?net = "[a AND octet 24 ?M, b AND octet 16 ?M, c AND octet 8 ?M, d AND octet 0 ?M]"
  let ?hi = "[(a AND octet 24 ?M) + octet 24 ?W, (b AND octet 16 ?M) + octet 16 ?W,
               (c AND octet 8 ?M) + octet 8 ?W, (d AND octet 0 ?M) + octet 0 ?W]"
  note o = octet_range(1)
  have net0: "0 \<le> a AND octet 24 ?M" "0 \<le> b AND octet 16 ?M" "0 \<le> c AND octet 8 ?M"
    "0 \<le> d AND octet 0 ?M"
    using a by (simp_all add: o)
  have hi0: "0 \<le> (a AND octet 24 ?M) + octet 24 ?W" "0 \<le> (b AND octet 16 ?M) + octet 16 ?W"
    "0 \<le> (c AND octet 8 ?M) + octet 8 ?W" "0 \<le> (d AND octet 0 ?M) + octet 0 ?W"
    using net0 o [of 24 ?W] o [of 16 ?W] o [of 8 ?W] o [of 0 ?W] by simp_all
  have "CHR ''/'' \<notin> set ?s"
    using a by (intro l2s_no_slash) simp
  then have ix: "py_index (CHR ''/'') (?s @ ''/'' @ py_str (int n)) = Inr (length ?s)"
    by (simp add: py_index_app)
  have tk: "take (length ?s) (?s @ ''/'' @ py_str (int n)) = ?s"
    and dr: "drop (Suc (length ?s)) (?s @ ''/'' @ py_str (int n)) = py_str (int n)"
    by simp_all
  have bb: "address_to_bin ?s = Inr (map (\<lambda>x. zfill 8 (drop 2 (py_bin x))) [a, b, c, d])"
    using a by (rule address_to_bin_quad)
  have nw: "network ?s (dotted ?M) = Inr ?net"
    unfolding dotted_def octets_def using a by (rule network_quad) (rule o)+
  have lo: "host_min (list_to_string py_str ?net) = Inr (list_to_string py_str ?net)"
    using net0 by (rule host_min_quad)
  have hi: "host_max (list_to_string py_str ?net) (dotted ?W) = Inr (list_to_string py_str ?hi)"
    unfolding dotted_def octets_def using net0 by (rule host_max_quad) (rule o)+
  have tot: "num_hosts (dotted ?W) = Inr (host_count ?W)"
    using num_hosts_quad [OF o o o o, of 24 ?W 16 ?W 8 ?W 0 ?W]
    by (simp add: dotted_def octets_def host_count_def mult.assoc)
  have bc: "host_min (list_to_string py_str ?hi) = Inr (list_to_string py_str ?hi)"
    using hi0 by (rule host_min_quad)
  have ips: "get_ip_list (list_to_string py_str ?net) (list_to_string py_str ?hi) = Inr (ip_list ?net ?hi)"
    using get_ip_list_quad [OF net0 hi0] by (simp add: ip_list_def)
  show ?thesis
    unfolding init_def ix Let_def sum.case tk dr add_Suc_right add_0_right One_nat_def
      calculate_netmask_prefix [OF n] calculate_wildcard_prefix [OF n] bb nw lo hi tot bc ips
    by (simp add: new_object_def)
qed

lemma init_cidr_text:
  assumes n: "n \<le> 32"
  shows "init (cidr_text w n) =
    (let M = prefix_mask n; N = w AND M; H = N OR NOT M
     in (\<lparr>base = Some (dotted w),
          netmask = Some (dotted M),
          wildcard = Some (dotted (NOT M)),
          binBase = Some (map (\<lambda>x. zfill 8 (drop 2 (py_bin x))) (octets w)),
          subnet = Some (dotted N),
          hostmin = Some (dotted N),
          hostmax = Some (dotted H),
          total_hosts = Some (host_count (NOT M)),
          broadcast = Some (dotted H),
          allips = Some (ip_list (octets N) (octets H))\<rparr>, None))"
  using init_quad [OF n octet_range(1) octet_range(1) octet_range(1) octet_range(1), of 24 w 16 w 8 w 0 w]
  by (simp add: cidr_text_def dotted_def octets_def Let_def octet_and octet_or and_add_compl
      octet_not octet_range)


section \<open>A worked example and facts about the prefix mask\<close>


lemma ex_text: "cidr_text 0xC0A80002 24 = ''192.168.0.2/24''" by code_simp
lemma ex_base: "dotted 0xC0A80002 = ''192.168.0.2''" by code_simp
lemma ex_mask: "dotted (prefix_mask 24) = ''255.255.255.0''" by code_simp
lemma ex_wild: "dotted (NOT (prefix_mask 24)) = ''0.0.0.255''" by code_simp
lemma ex_net: "dotted (0xC0A80002 AND prefix_mask 24) = ''192.168.0.0''" by code_simp
lemma ex_max: "dotted (0xC0A80002 AND prefix_mask 24 OR NOT (prefix_mask 24)) = ''192.168.0.255''"
  by code_simp
lemma ex_count: "host_count (NOT (prefix_mask 24)) = 256" by code_simp

lemma ex_init:
  "init ''192.168.0.2/24'' =
     (\<lparr>base = Some ''192.168.0.2'', netmask = Some ''255.255.255.0'',
       wildcard = Some ''0.0.0.255'',
       binBase = Some (map (\<lambda>x. zfill 8 (drop 2 (py_bin x))) (octets 0xC0A80002)),
       subnet = Some ''192.168.0.0'', hostmin = Some ''192.168.0.0'',
       hostmax = Some ''192.168.0.255'', total_hosts = Some 256,
       broadcast = Some ''192.168.0.255'',
       allips = Some (ip_list (octets (0xC0A80002 AND prefix_mask 24))
                  (octets (0xC0A80002 AND prefix_mask 24 OR NOT (prefix_mask 24))))\<rparr>, None)"
proof -
  have "(24::nat) \<le> 32" by simp
  from init_cidr_text [OF this, of "0xC0A80002"] show ?thesis
    unfolding Let_def ex_text ex_base ex_mask ex_wild ex_net ex_max ex_count .
qed

lemma prefix_mask_32: "prefix_mask 32 = - 1"
  by (simp add: prefix_mask_def)

lemma bit_prefix_mask: "bit (prefix_mask n) i \<longleftrightarrow> i < 32 \<and> 32 - n \<le> i"
  by (auto simp: prefix_mask_def bit_simps)


lemma octet_sum_or:
  "k + 8 \<le> 32 \<Longrightarrow> octet k (x AND m) + octet k (NOT m) = octet k (x AND m) OR octet k (NOT m)"
  using and_add_compl [of "octet k m" "octet k x"] octet_range [of k m]
  by (simp add: octet_and octet_not)

lemma ex_octets_net: "octets (0xC0A80002 AND prefix_mask 24) = [192, 168, 0, 0]" by code_simp
lemma ex_octets_max:
  "octets (0xC0A80002 AND prefix_mask 24 OR NOT (prefix_mask 24)) = [192, 168, 0, 255]"
  by code_simp
lemma ex_octets_wild: "octets (NOT (prefix_mask 24)) = [0, 0, 0, 255]" by code_simp

section \<open>The enumeration\<close>

lemma product_mem:
  "t \<in> set (itertools_product rs) \<longleftrightarrow> list_all2 (\<lambda>x r. x \<in> set r) t rs"
proof (induction rs arbitrary: t)
  case Nil
  show ?case by auto
next
  case (Cons r rs)
  show ?case by (cases t) (auto simp: Cons.IH image_iff)
qed

lemma product_length:
  "length (itertools_product rs) = prod_list (map length rs)"
proof (induction rs)
  case Nil
  show ?case by simp
next
  case (Cons r rs)
  have "length (concat (map (\<lambda>x. map (\<lambda>t. x # t) P) r)) = length r * length P" for P :: "'a list list"
    by (induction r) simp_all
  with Cons show ?case by simp
qed

lemma blocks_last:
  assumes "P \<noteq> []"
  shows "r \<noteq> [] \<Longrightarrow>
    concat (map (\<lambda>x. map (\<lambda>t. x # t) P) r) \<noteq> [] \<and>
    last (concat (map (\<lambda>x. map (\<lambda>t. x # t) P) r)) = last r # last P"
proof (induction r)
  case Nil
  then show ?case by simp
next
  case (Cons x r)
  show ?case
  proof (cases "r = []")
    case True
    with assms show ?thesis by (simp add: last_map)
  next
    case False
    with Cons.IH assms show ?thesis by simp
  qed
qed

lemma product_hd_last:
  assumes "\<forall>r\<in>set rs. r \<noteq> []"
  shows "itertools_product rs \<noteq> [] \<and> hd (itertools_product rs) = map hd rs \<and>
     last (itertools_product rs) = map last rs"
  using assms
proof (induction rs)
  case Nil
  show ?case by simp
next
  case (Cons r rs)
  let ?P = "itertools_product rs"
  from Cons have P: "?P \<noteq> []" "hd ?P = map hd rs" "last ?P = map last rs"
    by simp_all
  from Cons.prems obtain x r' where r: "r = x # r'"
    by (cases r) auto
  from Cons.prems have "r \<noteq> []" by simp
  from blocks_last [OF P(1) this]
  have l: "last (itertools_product (r # rs)) = last r # last ?P"
    by simp
  have h: "hd (itertools_product (r # rs)) = x # hd ?P"
    using P(1) r by (simp add: hd_map)
  from P r h l show ?case by simp
qed

lemma tuple_value_bounds:
  "\<forall>x\<in>set t. 0 \<le> x \<and> x \<le> 255 \<Longrightarrow> 0 \<le> tuple_value t \<and> tuple_value t < 256 ^ length t"
proof (induction t)
  case Nil
  show ?case by simp
next
  case (Cons x t)
  then have v: "0 \<le> tuple_value t" "tuple_value t < 256 ^ length t" and x: "0 \<le> x" "x \<le> 255"
    by simp_all
  have "x * 256 ^ length t \<le> 255 * 256 ^ length t"
    using x by (intro mult_right_mono) simp_all
  moreover have "0 \<le> x * 256 ^ length t"
    using x by simp
  moreover have "tuple_value (x # t) = x * 256 ^ length t + tuple_value t"
    "(256::int) ^ length (x # t) = 256 * 256 ^ length t"
    by simp_all
  ultimately show ?case using v by linarith
qed

lemma sorted_blocks:
  assumes P: "sorted_wrt (<) (map tuple_value P)"
    and len: "\<forall>t\<in>set P. length t = k"
    and bd: "\<forall>t\<in>set P. 0 \<le> tuple_value t \<and> tuple_value t < 256 ^ k"
  shows "sorted_wrt (<) r \<Longrightarrow>
    sorted_wrt (<) (map tuple_value (concat (map (\<lambda>x. map (\<lambda>t. x # t) P) r)))"
proof (induction r)
  case Nil
  show ?case by simp
next
  case (Cons x r)
  have eq: "map tuple_value (map (\<lambda>t. y # t) P) = map (\<lambda>t. y * 256 ^ k + tuple_value t) P" for y
    using len by simp
  have "sorted_wrt (\<lambda>a b. tuple_value a < tuple_value b) P"
    using P by (simp add: sorted_wrt_map)
  then have "sorted_wrt (\<lambda>a b. x * 256 ^ k + tuple_value a < x * 256 ^ k + tuple_value b) P"
    by (rule sorted_wrt_mono_rel [rotated]) simp
  then have first: "sorted_wrt (<) (map tuple_value (map (\<lambda>t. x # t) P))"
    unfolding eq by (simp add: sorted_wrt_map)
  have cross: "a < b"
    if a: "a \<in> set (map tuple_value (map (\<lambda>t. x # t) P))"
      and b: "b \<in> set (map tuple_value (concat (map (\<lambda>x. map (\<lambda>t. x # t) P) r)))" for a b
  proof -
    from a obtain t where t: "t \<in> set P" "a = x * 256 ^ k + tuple_value t"
      unfolding eq by auto
    from b obtain y u where u: "y \<in> set r" "u \<in> set P" "b = y * 256 ^ k + tuple_value u"
      using len by auto
    from Cons.prems u(1) have "x + 1 \<le> y" by auto
    then have "(x + 1) * 256 ^ k \<le> y * 256 ^ k"
      by (intro mult_right_mono) simp_all
    then have "x * 256 ^ k + 256 ^ k \<le> y * 256 ^ k"
      by (simp add: algebra_simps)
    moreover from bd t(1) u(2) have "tuple_value t < 256 ^ k" "0 \<le> tuple_value u"
      by simp_all
    ultimately show ?thesis unfolding t(2) u(3) by linarith
  qed
  from Cons have "sorted_wrt (<) (map tuple_value (concat (map (\<lambda>x. map (\<lambda>t. x # t) P) r)))"
    by simp
  with first cross show ?case
    by (simp add: sorted_wrt_append del: map_map)
qed

lemma sorted_product:
  assumes "\<forall>r\<in>set rs. sorted_wrt (<) r \<and> (\<forall>x\<in>set r. 0 \<le> x \<and> x \<le> 255)"
  shows "sorted_wrt (<) (map tuple_value (itertools_product rs))"
  using assms
proof (induction rs)
  case Nil
  show ?case by simp
next
  case (Cons r rs)
  let ?P = "itertools_product rs"
  have mem: "\<forall>x\<in>set t. 0 \<le> x \<and> x \<le> 255" and len: "length t = length rs" if "t \<in> set ?P" for t
  proof -
    from that have l: "list_all2 (\<lambda>x r. x \<in> set r) t rs"
      by (simp add: product_mem)
    then show "length t = length rs"
      by (rule list_all2_lengthD)
    show "\<forall>x\<in>set t. 0 \<le> x \<and> x \<le> 255"
    proof
      fix x assume "x \<in> set t"
      then obtain i where i: "i < length t" "x = t ! i"
        by (auto simp: in_set_conv_nth)
      with l have "x \<in> set (rs ! i)" "i < length rs"
        by (auto simp: list_all2_conv_all_nth)
      with Cons.prems show "0 \<le> x \<and> x \<le> 255"
        by (metis list.set_intros(2) nth_mem)
    qed
  qed
  have bd: "\<forall>t\<in>set ?P. 0 \<le> tuple_value t \<and> tuple_value t < 256 ^ length rs"
    using tuple_value_bounds mem len by metis
  have "sorted_wrt (<) (map tuple_value ?P)"
    using Cons by simp
  from sorted_blocks [OF this _ bd, of r] len Cons.prems show ?case
    by simp
qed


lemma map_result_py_str:
  "\<forall>x\<in>set t. 0 \<le> x \<Longrightarrow> map_result (py_int 10) (map py_str t) = Inr t"
  by (induction t) (simp_all add: py_int_py_str)

lemma address_value_l2s:
  assumes "t \<noteq> []" "\<forall>x\<in>set t. 0 \<le> x"
  shows "address_value (list_to_string py_str t) = tuple_value t"
  using assms by (simp add: address_value_def split_l2s map_result_py_str)

lemma hd_upto: "i \<le> j \<Longrightarrow> hd [i..j] = i"
  by (simp add: upto_rec1)

lemma last_upto: "i \<le> j \<Longrightarrow> last [i..j] = j"
  by (simp add: upto_rec2)

lemma ip_list_quad:
  assumes a: "0 \<le> a" "a \<le> a'" "a' \<le> 255" and b: "0 \<le> b" "b \<le> b'" "b' \<le> 255"
    and c: "0 \<le> c" "c \<le> c'" "c' \<le> 255" and d: "0 \<le> d" "d \<le> d'" "d' \<le> 255"
  shows "ip_list [a, b, c, d] [a', b', c', d'] \<noteq> []"
    and "hd (ip_list [a, b, c, d] [a', b', c', d']) = list_to_string py_str [a, b, c, d]"
    and "last (ip_list [a, b, c, d] [a', b', c', d']) = list_to_string py_str [a', b', c', d']"
    and "int (length (ip_list [a, b, c, d] [a', b', c', d'])) =
           (a' - a + 1) * (b' - b + 1) * (c' - c + 1) * (d' - d + 1)"
    and "sorted_wrt (<) (map address_value (ip_list [a, b, c, d] [a', b', c', d']))"
proof -
  let ?rs = "[[a .. a'], [b .. b'], [c .. c'], [d .. d']]"
  have il: "ip_list [a, b, c, d] [a', b', c', d'] = map (list_to_string py_str) (itertools_product ?rs)"
    by (simp add: ip_list_def)
  have ne: "\<forall>r\<in>set ?rs. r \<noteq> []"
    using a b c d by simp
  note hl = product_hd_last [OF ne]
  from hl show "ip_list [a, b, c, d] [a', b', c', d'] \<noteq> []"
    unfolding il by simp
  from hl show "hd (ip_list [a, b, c, d] [a', b', c', d']) = list_to_string py_str [a, b, c, d]"
    unfolding il using a b c d by (simp add: hd_map hd_upto)
  from hl show "last (ip_list [a, b, c, d] [a', b', c', d']) = list_to_string py_str [a', b', c', d']"
    unfolding il using a b c d by (simp add: last_map last_upto)
  show "int (length (ip_list [a, b, c, d] [a', b', c', d'])) =
           (a' - a + 1) * (b' - b + 1) * (c' - c + 1) * (d' - d + 1)"
    unfolding il length_map product_length using a b c d by (simp add: mult.assoc)
  have tup: "t \<noteq> [] \<and> (\<forall>x\<in>set t. 0 \<le> x)" if "t \<in> set (itertools_product ?rs)" for t
  proof -
    from that have l: "list_all2 (\<lambda>x r. x \<in> set r) t ?rs"
      by (simp only: product_mem)
    then obtain x y z u where "t = [x, y, z, u]"
      by (auto simp: list_all2_Cons2)
    with l a b c d show ?thesis by auto
  qed
  have av: "map address_value (ip_list [a, b, c, d] [a', b', c', d']) =
      map tuple_value (itertools_product ?rs)"
    unfolding il map_map by (rule map_cong) (simp_all add: tup address_value_l2s)
  have "\<forall>r\<in>set ?rs. sorted_wrt (<) r \<and> (\<forall>x\<in>set r. 0 \<le> x \<and> x \<le> 255)"
    using a b c d by auto
  then have "sorted_wrt (<) (map tuple_value (itertools_product ?rs))"
    by (rule sorted_product)
  then show "sorted_wrt (<) (map address_value (ip_list [a, b, c, d] [a', b', c', d']))"
    by (simp only: av)
qed

lemma ip_list_nested:
  "ip_list [a, b, c, d] [a', b', c', d'] =
     concat (map (\<lambda>x. concat (map (\<lambda>y. concat (map (\<lambda>z.
       map (\<lambda>u. list_to_string py_str [x, y, z, u]) [d .. d']) [c .. c'])) [b .. b'])) [a .. a'])"
  by (simp add: ip_list_def map_concat comp_def)

lemma octet_max_sum:
  "k + 8 \<le> 32 \<Longrightarrow> octet k ((x AND m) OR NOT m) = octet k (x AND m) + octet k (NOT m)"
  by (simp add: octet_sum_or octet_or)

lemma enum_props:
  fixes w m :: "32 word"
  defines "N \<equiv> w AND m" and "H \<equiv> (w AND m) OR NOT m"
  shows "ip_list (octets N) (octets H) \<noteq> []"
    and "hd (ip_list (octets N) (octets H)) = dotted N"
    and "last (ip_list (octets N) (octets H)) = dotted H"
    and "int (length (ip_list (octets N) (octets H))) = host_count (NOT m)"
    and "sorted_wrt (<) (map address_value (ip_list (octets N) (octets H)))"
    and "get_ip_list (dotted N) (dotted H) = Inr (ip_list (octets N) (octets H))"
proof -
  note o = octet_range
  have le: "octet 24 N \<le> octet 24 H" "octet 16 N \<le> octet 16 H"
    "octet 8 N \<le> octet 8 H" "octet 0 N \<le> octet 0 H"
    unfolding N_def H_def using o(1) [of _ "NOT m"] by (simp_all add: octet_max_sum)
  note q = ip_list_quad [OF o(1) le(1) o(2) o(1) le(2) o(2) o(1) le(3) o(2) o(1) le(4) o(2),
      folded octets_def dotted_def]
  from q(1) show "ip_list (octets N) (octets H) \<noteq> []" .
  from q(2) show "hd (ip_list (octets N) (octets H)) = dotted N" .
  from q(3) show "last (ip_list (octets N) (octets H)) = dotted H" .
  from q(5) show "sorted_wrt (<) (map address_value (ip_list (octets N) (octets H)))" .
  show "int (length (ip_list (octets N) (octets H))) = host_count (NOT m)"
    unfolding q(4) unfolding N_def H_def
    by (simp add: host_count_def octets_def octet_max_sum mult.assoc)
  have "get_ip_list (list_to_string py_str [octet 24 N, octet 16 N, octet 8 N, octet 0 N])
      (list_to_string py_str [octet 24 H, octet 16 H, octet 8 H, octet 0 H]) =
    Inr (map (list_to_string py_str) (itertools_product
      [[octet 24 N .. octet 24 H], [octet 16 N .. octet 16 H],
       [octet 8 N .. octet 8 H], [octet 0 N .. octet 0 H]]))"
    by (rule get_ip_list_quad) (rule o(1))+
  then show "get_ip_list (dotted N) (dotted H) = Inr (ip_list (octets N) (octets H))"
    by (simp add: dotted_def octets_def ip_list_def)
qed

lemma ex2_text: "cidr_text 0x0A000005 30 = ''10.0.0.5/30''" by code_simp

section \<open>Octets and 32-bit values\<close>

text \<open>
  The theorems below range over 32-bit words \<open>w\<close> and their text \<open>dotted w\<close>. That
  covers every address with four octets in 0..255: such octets are the octets of
  \<open>word_of_octets a b c d\<close>, and the value read from the text of a word is the word.
\<close>

lemma octet_div_mod: "octet k w = uint w div 2 ^ k mod 256"
proof -
  have "uint w mod 2 ^ 32 = uint w"
    using uint_bounded [of w] by simp
  then show ?thesis
    unfolding octet_def unsigned_take_bit_eq unsigned_drop_bit_eq
    by (simp add: take_bit_eq_mod drop_bit_eq_div)
qed

lemma octets_word_of_octets:
  assumes "0 \<le> a" "a \<le> 255" "0 \<le> b" "b \<le> 255" "0 \<le> c" "c \<le> 255" "0 \<le> d" "d \<le> 255"
  shows "octets (word_of_octets a b c d) = [a, b, c, d]"
proof -
  define v2 where "v2 = a * 256 + b"
  define v1 where "v1 = v2 * 256 + c"
  define v where "v = v1 * 256 + d"
  have s: "(q * 256 + r) div 256 = q" "(q * 256 + r) mod 256 = r"
    if "0 \<le> r" "r < 256" for q r :: int
    using that by simp_all
  have "0 \<le> v" "v < 2 ^ LENGTH(32)"
    using assms by (auto simp: v_def v1_def v2_def)
  with refl have u: "uint (word_of_int v :: 32 word) = v"
    by (rule word_of_int_inverse)
  have 0: "v mod 256 = d" and d1: "v div 256 = v1"
    unfolding v_def using assms by (simp_all only: s)
  have 1: "v1 mod 256 = c" and d2: "v1 div 256 = v2"
    unfolding v1_def using assms by (simp_all only: s)
  have 2: "v2 mod 256 = b" and d3: "v2 div 256 = a"
    unfolding v2_def using assms by (simp_all only: s)
  have "v div 65536 = v div 256 div 256" "v div 16777216 = v div 256 div 256 div 256"
    by (simp_all add: div_mult2_eq [symmetric])
  then have dd: "v div 65536 = v2" "v div 16777216 = a"
    by (simp_all only: d1 d2 d3)
  have "a mod 256 = a"
    using assms by simp
  with 0 1 2 d1 dd have "octets (word_of_int v) = [a, b, c, d]"
    unfolding octets_def octet_div_mod u by simp
  then show ?thesis
    by (simp only: word_of_octets_def v_def v1_def v2_def)
qed

lemma tuple_value_octets: "tuple_value (octets w) = uint w"
proof -
  define x where "x = uint w"
  define y1 where "y1 = x div 256"
  define y2 where "y2 = y1 div 256"
  define y3 where "y3 = y2 div 256"
  have x: "0 \<le> x" "x < 4294967296"
    using uint_bounded [of w] by (simp_all add: x_def)
  have d: "x div 65536 = y2" "x div 16777216 = y3"
    by (simp_all add: y1_def y2_def y3_def div_mult2_eq [symmetric])
  have "0 \<le> y3" "y3 < 256"
    using x unfolding d(2) [symmetric] by simp_all
  then have m3: "y3 mod 256 = y3" by simp
  have e: "x = y1 * 256 + x mod 256" "y1 = y2 * 256 + y1 mod 256" "y2 = y3 * 256 + y2 mod 256"
    by (simp_all add: y1_def y2_def y3_def)
  have "tuple_value (octets w) =
      y3 mod 256 * 16777216 + (y2 mod 256 * 65536 + (y1 mod 256 * 256 + x mod 256))"
    unfolding octets_def octet_div_mod x_def [symmetric]
    by (simp add: d y1_def [symmetric])
  also have "\<dots> = x"
    unfolding m3 using e by linarith
  finally show ?thesis by (simp add: x_def)
qed

lemma address_value_dotted: "address_value (dotted w) = uint w"
  unfolding dotted_def using address_value_l2s [of "octets w"] tuple_value_octets [of w]
  by (simp add: octets_def octet_range)

section \<open>Malformed input\<close>

lemma ex3_text: "''300.1.1.1'' @ ''/'' @ py_str (int 24) = ''300.1.1.1/24''"
  by code_simp

lemma ex3_net:
  "list_to_string py_str [300 AND octet 24 (prefix_mask 24), 1 AND octet 16 (prefix_mask 24),
     1 AND octet 8 (prefix_mask 24), 1 AND octet 0 (prefix_mask 24)] = ''44.1.1.0''"
  by code_simp

lemma ex3_max:
  "list_to_string py_str
    [(300 AND octet 24 (prefix_mask 24)) + octet 24 (NOT (prefix_mask 24)),
     (1 AND octet 16 (prefix_mask 24)) + octet 16 (NOT (prefix_mask 24)),
     (1 AND octet 8 (prefix_mask 24)) + octet 8 (NOT (prefix_mask 24)),
     (1 AND octet 0 (prefix_mask 24)) + octet 0 (NOT (prefix_mask 24))] = ''44.1.1.255''"
  by code_simp

lemma ex3_init:
  "\<exists>bb ips. init ''300.1.1.1/24'' =
     (\<lparr>base = Some ''300.1.1.1'', netmask = Some ''255.255.255.0'',
       wildcard = Some ''0.0.0.255'', binBase = Some bb,
       subnet = Some ''44.1.1.0'', hostmin = Some ''44.1.1.0'',
       hostmax = Some ''44.1.1.255'', total_hosts = Some 256,
       broadcast = Some ''44.1.1.255'', allips = Some ips\<rparr>, None)"
proof -
  have e: "list_to_string py_str [300, 1, 1, 1] = ''300.1.1.1''" by code_simp
  have "(24::nat) \<le> 32" "(0::int) \<le> 300" "(0::int) \<le> 1" by simp_all
  from init_quad [OF this(1,2,3,3,3)] show ?thesis
    unfolding Let_def ex3_text ex3_net ex3_max ex_mask ex_wild ex_count e by blast
qed

lemma ex4_init:
  "init ''10.0.0.1/33'' =
     (\<lparr>base = Some ''10.0.0.1'', netmask = Some ''255.255.255.255'',
       wildcard = Some ''0.0.0.0'',
       binBase = Some [''00001010'', ''00000000'', ''00000000'', ''00000001''],
       subnet = Some ''10.0.0.1'', hostmin = Some ''10.0.0.1'',
       hostmax = Some ''10.0.0.1'', total_hosts = Some 1,
       broadcast = Some ''10.0.0.1'', allips = Some [''10.0.0.1'']\<rparr>, None)"
  by code_simp

lemma main_stdin_lines:
  "lines \<noteq> [] \<Longrightarrow> \<forall>l\<in>set lines. CHR 0x0A \<notin> set l \<Longrightarrow>
   main_stdin (py_join [CHR 0x0A] lines) = map init lines"
  by (simp add: main_stdin_def py_split_join)


lemma init_assigned:
  "(case init s of (c, e) \<Rightarrow>
      initial_segment (assigned c) \<and> (e = None) = (False \<notin> set (assigned c)))"
  unfolding init_def Let_def
  by (simp split: sum.split add: assigned_def new_object_def)

section \<open>The claims\<close>

text \<open>
  Claim C4. For every wildcard whose four octets are each in 0..255, that is for the text
  of every 32-bit word \<open>wc\<close>, \<open>num_hosts\<close> returns the product over the four octets of
  the octet plus one, and that number is at least 1. For the wildcards of the prefix
  lengths 24, 16, 32 and 0 it returns 256, 65536, 1 and 4294967296.
\<close>

theorem C4_num_hosts:
  "num_hosts (dotted wc) = Inr (host_count wc) \<and> 1 \<le> host_count wc \<and>
   num_hosts (dotted (NOT (prefix_mask 24))) = Inr 256 \<and>
   num_hosts (dotted (NOT (prefix_mask 16))) = Inr 65536 \<and>
   num_hosts (dotted (NOT (prefix_mask 32))) = Inr 1 \<and>
   num_hosts (dotted (NOT (prefix_mask 0))) = Inr 4294967296"
proof -
  note o = octet_range(1)
  have 1: "num_hosts (dotted wc) = Inr (host_count wc)"
    using num_hosts_quad [OF o o o o, of 24 wc 16 wc 8 wc 0 wc]
    by (simp add: dotted_def octets_def host_count_def mult.assoc)
  have "0 < (octet 24 wc + 1) * (octet 16 wc + 1) * (octet 8 wc + 1) * (octet 0 wc + 1)"
    using o [of 24 wc] o [of 16 wc] o [of 8 wc] o [of 0 wc] by simp
  then have 2: "1 \<le> host_count wc"
    by (simp add: host_count_def octets_def mult.assoc)
  have 3: "num_hosts (dotted (NOT (prefix_mask 24))) = Inr 256" by code_simp
  have 4: "num_hosts (dotted (NOT (prefix_mask 16))) = Inr 65536" by code_simp
  have 5: "num_hosts (dotted (NOT (prefix_mask 32))) = Inr 1" by code_simp
  have 6: "num_hosts (dotted (NOT (prefix_mask 0))) = Inr 4294967296" by code_simp
  from 1 2 3 4 5 6 show ?thesis by simp
qed

text \<open>
  Claim C1. For the input \<open>192.168.0.2/24\<close> the constructor raises nothing and the eight
  displayed fields are Base 192.168.0.2, Netmask 255.255.255.0, Wildcard 0.0.0.255,
  Broadcast 192.168.0.255, Subnet ID 192.168.0.0, Host min 192.168.0.0,
  Host max 192.168.0.255 and Total Hosts 256. For the input \<open>10.0.0.5/30\<close> it raises
  nothing and Netmask is 255.255.255.252, Wildcard 0.0.0.3, Subnet ID 10.0.0.4,
  Host max 10.0.0.7 and Total Hosts 4.
\<close>

theorem C1_examples:
  "str_rows (fst (init ''192.168.0.2/24'')) =
     Inr [(''Base'', ''192.168.0.2''), (''Netmask'', ''255.255.255.0''),
          (''Wildcard'', ''0.0.0.255''), (''Broadcast'', ''192.168.0.255''),
          (''Subnet ID'', ''192.168.0.0''), (''Host min'', ''192.168.0.0''),
          (''Host max'', ''192.168.0.255''), (''Total Hosts'', ''256'')] \<and>
   snd (init ''192.168.0.2/24'') = None \<and>
   (case init ''10.0.0.5/30'' of (c, e) \<Rightarrow>
      e = None \<and> netmask c = Some ''255.255.255.252'' \<and> wildcard c = Some ''0.0.0.3'' \<and>
      subnet c = Some ''10.0.0.4'' \<and> hostmax c = Some ''10.0.0.7'' \<and> total_hosts c = Some 4)"
proof -
  have s: "py_str 256 = ''256''" by code_simp
  have 1: "str_rows (fst (init ''192.168.0.2/24'')) =
     Inr [(''Base'', ''192.168.0.2''), (''Netmask'', ''255.255.255.0''),
          (''Wildcard'', ''0.0.0.255''), (''Broadcast'', ''192.168.0.255''),
          (''Subnet ID'', ''192.168.0.0''), (''Host min'', ''192.168.0.0''),
          (''Host max'', ''192.168.0.255''), (''Total Hosts'', ''256'')]"
    by (simp add: ex_init str_rows_def attribute_def s)
  have 2: "snd (init ''192.168.0.2/24'') = None"
    by (simp add: ex_init)
  have 3: "(case init ''10.0.0.5/30'' of (c, e) \<Rightarrow>
      e = None \<and> netmask c = Some ''255.255.255.252'' \<and> wildcard c = Some ''0.0.0.3'' \<and>
      subnet c = Some ''10.0.0.4'' \<and> hostmax c = Some ''10.0.0.7'' \<and> total_hosts c = Some 4)"
    by code_simp
  from 1 2 3 show ?thesis by blast
qed

text \<open>
  Claim C2. For every address \<open>w\<close> (four octets in 0..255) and every prefix length
  \<open>n \<le> 32\<close>, the constructor on the text of \<open>w/n\<close> stores as broadcast the text of the
  32-bit OR of the network address and the wildcard, and the attribute hostmax holds the
  same string. For the prefix length 32 the broadcast, the network address, hostmin and
  hostmax are all the text of \<open>w\<close> itself.
\<close>

theorem C2_broadcast:
  "n \<le> 32 \<Longrightarrow>
   (let c = fst (init (cidr_text w n)); N = w AND prefix_mask n; W = NOT (prefix_mask n)
    in subnet c = Some (dotted N) \<and> wildcard c = Some (dotted W) \<and>
       broadcast c = Some (dotted (N OR W)) \<and> hostmax c = broadcast c) \<and>
   (let c = fst (init (cidr_text w 32))
    in subnet c = Some (dotted w) \<and> broadcast c = subnet c \<and> hostmin c = subnet c \<and>
       hostmax c = subnet c)"
proof -
  assume n: "n \<le> 32"
  have "(32::nat) \<le> 32" by simp
  from init_cidr_text [OF n, of w] init_cidr_text [OF this, of w] show ?thesis
    by (simp add: Let_def prefix_mask_32)
qed

theorem C2_broadcast_witness:
  "(24::nat) \<le> 32 \<and>
   (let c = fst (init ''192.168.0.2/24'')
    in subnet c = Some ''192.168.0.0'' \<and> wildcard c = Some ''0.0.0.255'' \<and>
       broadcast c = Some ''192.168.0.255'' \<and> hostmax c = broadcast c)"
  using C2_broadcast [of 24 "0xC0A80002"]
  unfolding Let_def ex_text ex_net ex_wild ex_max by simp


text \<open>
  Claim C5. For every address \<open>w\<close> and prefix length \<open>n \<le> 32\<close>, the sums that
  \<open>host_max\<close> forms, octet by octet and without carry, from the network address and the
  wildcard are all at most 255 and are, octet by octet, the bitwise OR of the two: they
  are the octets of the 32-bit OR. Hence every octet of hostmin is at most the octet of
  hostmax in the same position, which is what the enumeration needs.
\<close>

theorem C5_host_max_no_carry:
  "n \<le> 32 \<Longrightarrow>
   (let c = fst (init (cidr_text w n)); N = w AND prefix_mask n; W = NOT (prefix_mask n);
        sums = map (\<lambda>(x, y). x + y) (zip (octets N) (octets W))
    in subnet c = Some (dotted N) \<and> wildcard c = Some (dotted W) \<and>
       host_max (dotted N) (dotted W) = Inr (list_to_string py_str sums) \<and>
       hostmax c = Some (list_to_string py_str sums) \<and>
       list_all (\<lambda>s. s \<le> 255) sums \<and>
       sums = map (\<lambda>(x, y). x OR y) (zip (octets N) (octets W)) \<and>
       sums = octets (N OR W) \<and>
       hostmin c = Some (list_to_string py_str (octets N)) \<and>
       list_all2 (\<le>) (octets N) sums)"
proof -
  assume n: "n \<le> 32"
  let ?M = "prefix_mask n"
  let ?N = "w AND ?M"
  let ?W = "NOT ?M"
  let ?sums = "map (\<lambda>(x, y). x + y) (zip (octets ?N) (octets ?W))"
  note o = octet_range(1)
  have or: "?sums = map (\<lambda>(x, y). x OR y) (zip (octets ?N) (octets ?W))"
    by (simp add: octets_def octet_sum_or)
  have oct: "?sums = octets (?N OR ?W)"
    by (simp add: octets_def octet_sum_or octet_or)
  have le: "list_all (\<lambda>s. s \<le> 255) ?sums"
    unfolding oct by (simp add: octets_def octet_range)
  have mono: "list_all2 (\<le>) (octets ?N) ?sums"
    by (simp add: octets_def o)
  have hm: "host_max (dotted ?N) (dotted ?W) = Inr (list_to_string py_str ?sums)"
    using host_max_quad [OF o o o o o o o o, of 24 ?N 16 ?N 8 ?N 0 ?N 24 ?W 16 ?W 8 ?W 0 ?W]
    by (simp add: dotted_def octets_def)
  have fields: "subnet (fst (init (cidr_text w n))) = Some (dotted ?N)"
    "wildcard (fst (init (cidr_text w n))) = Some (dotted ?W)"
    "hostmax (fst (init (cidr_text w n))) = Some (dotted (?N OR ?W))"
    "hostmin (fst (init (cidr_text w n))) = Some (dotted ?N)"
    using init_cidr_text [OF n, of w] by (simp_all add: Let_def)
  have hx: "hostmax (fst (init (cidr_text w n))) = Some (list_to_string py_str ?sums)"
    unfolding fields oct dotted_def ..
  have hn: "hostmin (fst (init (cidr_text w n))) = Some (list_to_string py_str (octets ?N))"
    unfolding fields dotted_def ..
  show ?thesis
    unfolding Let_def using fields(1,2) hm hx le or oct hn mono by blast
qed

theorem C5_host_max_no_carry_witness:
  "(24::nat) \<le> 32 \<and>
   host_max ''192.168.0.0'' ''0.0.0.255'' =
     Inr (list_to_string py_str (map (\<lambda>(x, y). x + y) (zip [192, 168, 0, 0] [0, 0, 0, 255]))) \<and>
   list_all (\<lambda>s. s \<le> 255) (map (\<lambda>(x, y). x + y) (zip [192, 168, 0, 0] [0, 0, 0, 255 :: int])) \<and>
   map (\<lambda>(x, y). x + y) (zip [192, 168, 0, 0] [0, 0, 0, 255 :: int]) =
     map (\<lambda>(x, y). x OR y) (zip [192, 168, 0, 0] [0, 0, 0, 255])"
  using C5_host_max_no_carry [of 24 "0xC0A80002"]
  unfolding Let_def ex_net ex_wild ex_octets_net ex_octets_wild ex_octets_max by simp

text \<open>
  Claim C6. For every prefix length \<open>n \<le> 32\<close> the netmask that \<open>calculate_netmask\<close>
  derives is the text of the 32-bit word whose bits \<open>32 - n .. 31\<close> are set and whose
  other bits are clear, whatever the address; the wildcard that \<open>calculate_wildcard\<close>
  derives is the text of its complement, whose octets are 255 minus the octets of the
  netmask; and the OR of netmask and wildcard is the word of 32 ones.
\<close>

theorem C6_netmask_wildcard:
  "n \<le> 32 \<Longrightarrow>
   calculate_netmask (py_str (int n)) = Inr (dotted (prefix_mask n)) \<and>
   (\<forall>i<32. bit (prefix_mask n) i \<longleftrightarrow> 32 - n \<le> i) \<and>
   netmask (fst (init (cidr_text w n))) = Some (dotted (prefix_mask n)) \<and>
   calculate_wildcard (py_str (int n)) = Inr (dotted (NOT (prefix_mask n))) \<and>
   wildcard (fst (init (cidr_text w n))) = Some (dotted (NOT (prefix_mask n))) \<and>
   octets (NOT (prefix_mask n)) = map (\<lambda>v. 255 - v) (octets (prefix_mask n)) \<and>
   prefix_mask n OR NOT (prefix_mask n) = - 1"
proof -
  assume n: "n \<le> 32"
  have 1: "\<forall>i<32. bit (prefix_mask n) i \<longleftrightarrow> 32 - n \<le> i"
    by (simp add: bit_prefix_mask)
  have 2: "netmask (fst (init (cidr_text w n))) = Some (dotted (prefix_mask n))"
    "wildcard (fst (init (cidr_text w n))) = Some (dotted (NOT (prefix_mask n)))"
    using init_cidr_text [OF n, of w] by (simp_all add: Let_def)
  have 3: "prefix_mask n OR NOT (prefix_mask n) = - 1"
    by simp
  from calculate_netmask_prefix [OF n] calculate_wildcard_prefix [OF n] 1 2 3
    octets_not [of "prefix_mask n", symmetric]
  show ?thesis by blast
qed

theorem C6_netmask_wildcard_witness:
  "(24::nat) \<le> 32 \<and> calculate_netmask (py_str 24) = Inr ''255.255.255.0'' \<and>
   bit (prefix_mask 24) 8 \<and> \<not> bit (prefix_mask 24) 7 \<and>
   calculate_wildcard (py_str 24) = Inr ''0.0.0.255'' \<and>
   netmask (fst (init ''192.168.0.2/24'')) = Some ''255.255.255.0''"
  using C6_netmask_wildcard [of 24 "0xC0A80002"]
  unfolding ex_mask ex_wild ex_text by simp

text \<open>
  Claim C7. For every address \<open>w\<close> and prefix length \<open>n \<le> 32\<close>, deriving the network
  address again from the derived network address, with the same prefix length, gives the
  same network address: both for the constructor and for the method \<open>network\<close>.
\<close>

theorem C7_network_idempotent:
  "n \<le> 32 \<Longrightarrow>
   (let N = w AND prefix_mask n
    in subnet (fst (init (cidr_text w n))) = Some (dotted N) \<and>
       subnet (fst (init (cidr_text N n))) = Some (dotted N) \<and>
       network (dotted w) (dotted (prefix_mask n)) = Inr (octets N) \<and>
       network (dotted N) (dotted (prefix_mask n)) = Inr (octets N))"
proof -
  assume n: "n \<le> 32"
  let ?M = "prefix_mask n"
  note o = octet_range(1)
  have nw: "network (dotted x) (dotted ?M) = Inr (octets (x AND ?M))" for x
    using network_quad [OF o o o o o o o o, of 24 x 16 x 8 x 0 x 24 ?M 16 ?M 8 ?M 0 ?M]
    by (simp add: dotted_def octets_def octet_and)
  have idem: "(w AND ?M) AND ?M = w AND ?M"
    by (simp add: and.assoc)
  from init_cidr_text [OF n, of w] init_cidr_text [OF n, of "w AND ?M"] nw [of w]
    nw [of "w AND ?M"] idem
  show ?thesis by (simp add: Let_def)
qed

theorem C7_network_idempotent_witness:
  "(24::nat) \<le> 32 \<and> subnet (fst (init ''192.168.0.2/24'')) = Some ''192.168.0.0'' \<and>
   subnet (fst (init (cidr_text (0xC0A80002 AND prefix_mask 24) 24))) = Some ''192.168.0.0''"
  using C7_network_idempotent [of 24 "0xC0A80002"]
  unfolding Let_def ex_text ex_net by simp


text \<open>
  Claim C3. For every address \<open>w\<close> and prefix length \<open>n \<le> 32\<close>, the list stored in
  \<open>allips\<close> is not empty, its length is the total host count, its first element is
  hostmin and its last is hostmax; it is the nested enumeration in which the first octet
  varies slowest and the last fastest; and the values of its addresses are strictly
  increasing.
\<close>

theorem C3_enumeration:
  "n \<le> 32 \<Longrightarrow>
   (let c = fst (init (cidr_text w n)); N = w AND prefix_mask n; H = N OR NOT (prefix_mask n)
    in \<exists>ips. allips c = Some ips \<and> total_hosts c = Some (int (length ips)) \<and> ips \<noteq> [] \<and>
         hostmin c = Some (hd ips) \<and> hostmax c = Some (last ips) \<and>
         ips = concat (map (\<lambda>x. concat (map (\<lambda>y. concat (map (\<lambda>z.
                 map (\<lambda>u. list_to_string py_str [x, y, z, u]) [octet 0 N .. octet 0 H])
                 [octet 8 N .. octet 8 H])) [octet 16 N .. octet 16 H])) [octet 24 N .. octet 24 H]) \<and>
         sorted_wrt (<) (map address_value ips))"
proof -
  assume n: "n \<le> 32"
  let ?M = "prefix_mask n"
  let ?N = "w AND ?M"
  let ?W = "NOT ?M"
  let ?H = "?N OR ?W"
  let ?ips = "ip_list (octets ?N) (octets ?H)"
  note q = enum_props [of w ?M]
  have nest: "?ips = concat (map (\<lambda>x. concat (map (\<lambda>y. concat (map (\<lambda>z.
                 map (\<lambda>u. list_to_string py_str [x, y, z, u]) [octet 0 ?N .. octet 0 ?H])
                 [octet 8 ?N .. octet 8 ?H])) [octet 16 ?N .. octet 16 ?H])) [octet 24 ?N .. octet 24 ?H])"
    unfolding octets_def by (rule ip_list_nested)
  have f: "allips (fst (init (cidr_text w n))) = Some ?ips"
    "total_hosts (fst (init (cidr_text w n))) = Some (host_count ?W)"
    "hostmin (fst (init (cidr_text w n))) = Some (dotted ?N)"
    "hostmax (fst (init (cidr_text w n))) = Some (dotted ?H)"
    using init_cidr_text [OF n, of w] by (simp_all add: Let_def)
  have "allips (fst (init (cidr_text w n))) = Some ?ips \<and>
      total_hosts (fst (init (cidr_text w n))) = Some (int (length ?ips)) \<and> ?ips \<noteq> [] \<and>
      hostmin (fst (init (cidr_text w n))) = Some (hd ?ips) \<and>
      hostmax (fst (init (cidr_text w n))) = Some (last ?ips) \<and>
      ?ips = concat (map (\<lambda>x. concat (map (\<lambda>y. concat (map (\<lambda>z.
                 map (\<lambda>u. list_to_string py_str [x, y, z, u]) [octet 0 ?N .. octet 0 ?H])
                 [octet 8 ?N .. octet 8 ?H])) [octet 16 ?N .. octet 16 ?H])) [octet 24 ?N .. octet 24 ?H]) \<and>
      sorted_wrt (<) (map address_value ?ips)"
    using f q(1,2,3,4,5) nest by simp
  then show ?thesis
    unfolding Let_def by (rule exI)
qed

theorem C3_enumeration_witness:
  "(30::nat) \<le> 32 \<and>
   (\<exists>ips. allips (fst (init ''10.0.0.5/30'')) = Some ips \<and>
      total_hosts (fst (init ''10.0.0.5/30'')) = Some (int (length ips)) \<and> ips \<noteq> [] \<and>
      hostmin (fst (init ''10.0.0.5/30'')) = Some (hd ips) \<and>
      hostmax (fst (init ''10.0.0.5/30'')) = Some (last ips) \<and>
      sorted_wrt (<) (map address_value ips))"
proof -
  have h: "(30::nat) \<le> 32" by simp
  from C3_enumeration [OF h, of "0x0A000005"] h show ?thesis
    unfolding Let_def ex2_text by blast
qed

text \<open>
  Claim C10 says that the enumeration is lazy, recomputed at each traversal and never held
  in memory as a whole. The constructor does the opposite: \<open>get_ip_list\<close> appends every
  address to a list and returns it, and the constructor stores that list in the attribute
  \<open>allips\<close>. After constructing \<open>10.0.0.5/30\<close> the object holds all four addresses.
\<close>

theorem C10_counterexample:
  "allips (fst (init ''10.0.0.5/30'')) =
     Some [''10.0.0.4'', ''10.0.0.5'', ''10.0.0.6'', ''10.0.0.7'']"
  by code_simp

text \<open>
  Claim C10, amended. For every address \<open>w\<close> and prefix length \<open>n \<le> 32\<close>,
  \<open>get_ip_list\<close> on hostmin and hostmax returns a list, of exactly as many elements as
  the host count of the wildcard, and the constructor has stored that whole list in
  \<open>allips\<close>: the enumeration is finite and eager.
\<close>

theorem C10_eager_enumeration:
  "n \<le> 32 \<Longrightarrow>
   (let c = fst (init (cidr_text w n)); N = w AND prefix_mask n; H = N OR NOT (prefix_mask n)
    in \<exists>ips. hostmin c = Some (dotted N) \<and> hostmax c = Some (dotted H) \<and>
         get_ip_list (dotted N) (dotted H) = Inr ips \<and> allips c = Some ips \<and>
         int (length ips) = host_count (NOT (prefix_mask n)))"
proof -
  assume n: "n \<le> 32"
  let ?M = "prefix_mask n"
  note q = enum_props [of w ?M]
  have f: "allips (fst (init (cidr_text w n))) = Some (ip_list (octets (w AND ?M)) (octets (w AND ?M OR NOT ?M)))"
    "hostmin (fst (init (cidr_text w n))) = Some (dotted (w AND ?M))"
    "hostmax (fst (init (cidr_text w n))) = Some (dotted (w AND ?M OR NOT ?M))"
    using init_cidr_text [OF n, of w] by (simp_all add: Let_def)
  from f q(4,6) show ?thesis
    unfolding Let_def by blast
qed

theorem C10_eager_enumeration_witness:
  "(30::nat) \<le> 32 \<and>
   (\<exists>ips. allips (fst (init ''10.0.0.5/30'')) = Some ips \<and>
      int (length ips) = host_count (NOT (prefix_mask 30)))"
proof -
  have h: "(30::nat) \<le> 32" by simp
  from C10_eager_enumeration [OF h, of "0x0A000005"] h show ?thesis
    unfolding Let_def ex2_text by blast
qed


text \<open>
  Claim C8 says that \<open>300.1.1.1/24\<close> and \<open>10.0.0.1/33\<close> are rejected with an error. The
  program validates neither the octets nor the prefix length: on both inputs the
  constructor raises nothing.
\<close>

theorem C8_counterexample:
  "snd (init ''300.1.1.1/24'') = None \<and> snd (init ''10.0.0.1/33'') = None"
  using ex3_init ex4_init by auto

text \<open>
  Claim C8, amended. Neither input is rejected. For \<open>300.1.1.1/24\<close> the base stays
  300.1.1.1 and the octet 300 is ANDed with the netmask octet 255, so the subnet is
  44.1.1.0, hostmax 44.1.1.255 and the total 256. For \<open>10.0.0.1/33\<close> the 33 ones are cut
  into four groups of eight, so the netmask is 255.255.255.255 and the result is that of
  a prefix length of 32. On piped input made of lines, one object is constructed for
  every line, in order, whatever happened to the lines before it.
\<close>

theorem C8_no_validation:
  "lines \<noteq> [] \<Longrightarrow> \<forall>l\<in>set lines. CHR 0x0A \<notin> set l \<Longrightarrow>
   (case init ''300.1.1.1/24'' of (c, e) \<Rightarrow>
      e = None \<and> base c = Some ''300.1.1.1'' \<and> netmask c = Some ''255.255.255.0'' \<and>
      subnet c = Some ''44.1.1.0'' \<and> hostmax c = Some ''44.1.1.255'' \<and>
      total_hosts c = Some 256) \<and>
   (case init ''10.0.0.1/33'' of (c, e) \<Rightarrow>
      e = None \<and> netmask c = Some ''255.255.255.255'' \<and> wildcard c = Some ''0.0.0.0'' \<and>
      subnet c = Some ''10.0.0.1'' \<and> hostmax c = Some ''10.0.0.1'' \<and> total_hosts c = Some 1) \<and>
   main_stdin (py_join [CHR 0x0A] lines) = map init lines"
  using ex3_init ex4_init main_stdin_lines [of lines] by auto

theorem C8_no_validation_witness:
  "[''300.1.1.1/24'', ''10.0.0.5/30''] \<noteq> [] \<and>
   CHR 0x0A \<notin> set ''300.1.1.1/24'' \<and> CHR 0x0A \<notin> set ''10.0.0.5/30'' \<and>
   main_stdin (''300.1.1.1/24'' @ [CHR 0x0A] @ ''10.0.0.5/30'') =
     [init ''300.1.1.1/24'', init ''10.0.0.5/30''] \<and>
   snd (init ''300.1.1.1/24'') = None"
  using C8_no_validation [of "[''300.1.1.1/24'', ''10.0.0.5/30'']"] by auto

text \<open>
  Claim C9 says that construction is atomic. The constructor catches the exception of
  the failing statement, prints it and returns the object as it is: for \<open>1.2.3.4/x\<close>
  the attribute \<open>base\<close> has been assigned and nothing else has.
\<close>

theorem C9_counterexample:
  "init ''1.2.3.4/x'' =
     (\<lparr>base = Some ''1.2.3.4'', netmask = None, wildcard = None, binBase = None,
       subnet = None, hostmin = None, hostmax = None, total_hosts = None,
       broadcast = None, allips = None\<rparr>, Some ValueError)"
  by code_simp

text \<open>
  Claim C9, amended. For every input string, the attributes the constructed object has
  are an initial segment of the assignment order base, netmask, wildcard, binBase,
  subnet, hostmin, hostmax, total, broadcast, allips; and the constructor prints no
  exception exactly when all ten have been assigned.
\<close>

theorem C9_assigned_prefix:
  "initial_segment (assigned (fst (init s))) \<and>
   (snd (init s) = None) = (False \<notin> set (assigned (fst (init s))))"
  using init_assigned [of s] by (cases "init s") simp


end
